theory Spec2Isabelle
  imports Main "HOL-Library.Word"
begin

unbundle bit_operations_syntax

section \<open>Common types\<close>

type_synonym u64 = "64 word"
type_synonym u32 = "32 word"
type_synonym byte = "8 word"

text \<open>
  Go run-time panics that the modelled code can raise: an index or slice bound out of
  range, a nil pointer dereference, and \<^verbatim>\<open>make\<close> with a negative length.
\<close>

datatype error = IndexOutOfRange | NilDereference | LenOutOfRange

section \<open>internal/rapidhash\<close>

text \<open>
  Byte slices are lists of bytes. A slice expression \<^verbatim>\<open>data[lo:hi]\<close> panics when the
  bounds are out of range; the hash functions return \<open>None\<close> for a panic. Lengths and
  offsets (\<^verbatim>\<open>uint64\<close> in the source) are natural numbers: every subtraction in the source
  stands under a branch condition that keeps it from wrapping, and a length enters the
  64-bit arithmetic through \<open>of_nat\<close>.
\<close>

definition SEED :: u64 where
  "SEED = 0xbdd89aa982704029"

definition secret :: "u64 list" where
  "secret = [0x2d358dccaa6c78a5, 0x8bb84b93962eacc9, 0x4b33a62ed433d4a3]"

definition Mul128 :: "u64 \<Rightarrow> u64 \<Rightarrow> u64 \<times> u64" where
  "Mul128 a b = (let p = unat a * unat b in (of_nat p, of_nat (p div 2 ^ 64)))"

definition Mix :: "u64 \<Rightarrow> u64 \<Rightarrow> u64" where
  "Mix a b = (case Mul128 a b of (lo, hi) \<Rightarrow> lo XOR hi)"

definition slice :: "'a list \<Rightarrow> nat \<Rightarrow> nat \<Rightarrow> 'a list option" where
  "slice xs lo hi =
     (if lo \<le> hi \<and> hi \<le> length xs then Some (take (hi - lo) (drop lo xs)) else None)"

definition slice_from :: "'a list \<Rightarrow> nat \<Rightarrow> 'a list option" where
  "slice_from xs lo = slice xs lo (length xs)"

definition at :: "'a list \<Rightarrow> nat \<Rightarrow> 'a option" where
  "at xs i = (if i < length xs then Some (xs ! i) else None)"

fun le_bytes :: "byte list \<Rightarrow> 'a::len word" where
  "le_bytes [] = 0"
| "le_bytes (b # bs) = ucast b OR push_bit 8 (le_bytes bs)"

definition Uint32 :: "byte list \<Rightarrow> u32 option" where
  "Uint32 b = (if length b < 4 then None else Some (le_bytes (take 4 b)))"

definition Uint64 :: "byte list \<Rightarrow> u64 option" where
  "Uint64 b = (if length b < 8 then None else Some (le_bytes (take 8 b)))"

definition read32 :: "byte list \<Rightarrow> nat \<Rightarrow> nat \<Rightarrow> u64 option" where
  "read32 data lo hi = Option.bind (Option.bind (slice data lo hi) Uint32) (\<lambda>w. Some (ucast w))"

definition read64 :: "byte list \<Rightarrow> nat \<Rightarrow> nat \<Rightarrow> u64 option" where
  "read64 data lo hi = Option.bind (slice data lo hi) Uint64"

text \<open>The accumulators \<open>(a, b)\<close> of an input of at most 16 bytes.\<close>

definition short_ab :: "byte list \<Rightarrow> nat \<Rightarrow> (u64 \<times> u64) option" where
  "short_ab data len =
     (if len \<ge> 4 then
        (case (read32 data 0 4, Option.bind (slice_from data (len - 4)) Uint32) of
           (Some x, Some y) \<Rightarrow>
             (let a = push_bit 32 x OR ucast y;
                  delta = drop_bit (drop_bit 3 len) (len AND 24)
              in case (read32 data delta (delta + 4),
                       read32 data (len - 4 - delta) (len - delta)) of
                   (Some z, Some w) \<Rightarrow> Some (a, push_bit 32 z OR w)
                 | _ \<Rightarrow> None)
         | _ \<Rightarrow> None)
      else if len > 0 then
        (let k = len in
         case (at data 0, at data (k div 2), at data (k - 1)) of
           (Some x, Some y, Some z) \<Rightarrow>
             Some (push_bit 56 (ucast x) OR push_bit 32 (ucast y) OR ucast z, 0)
         | _ \<Rightarrow> None)
      else Some (0, 0))"

text \<open>One pass of the 48-byte block loop over the window \<open>p\<close>.\<close>

definition block_step :: "byte list \<Rightarrow> u64 \<times> u64 \<times> u64 \<Rightarrow> (u64 \<times> u64 \<times> u64) option" where
  "block_step p s =
     (case s of (seed, see1, see2) \<Rightarrow>
        (case (read64 p 0 8, read64 p 8 16, read64 p 16 24,
               read64 p 24 32, read64 p 32 40, read64 p 40 48) of
           (Some w0, Some w1, Some w2, Some w3, Some w4, Some w5) \<Rightarrow>
             Some (Mix (w0 XOR secret ! 0) (w1 XOR seed),
                   Mix (w2 XOR secret ! 1) (w3 XOR see1),
                   Mix (w4 XOR secret ! 2) (w5 XOR see2))
         | _ \<Rightarrow> None))"

function block_loop ::
  "byte list \<Rightarrow> nat \<Rightarrow> nat \<Rightarrow> u64 \<times> u64 \<times> u64 \<Rightarrow> (nat \<times> u64 \<times> u64 \<times> u64) option" where
  "block_loop data len i s =
     (if i \<ge> 48 then
        (case slice_from data (len - i) of
           None \<Rightarrow> None
         | Some p \<Rightarrow>
             (case block_step p s of
                None \<Rightarrow> None
              | Some s' \<Rightarrow> block_loop data len (i - 48) s'))
      else Some (i, s))"
  by pat_completeness auto
termination
  by (relation "measure (\<lambda>(data, len, i, s). i)") auto

declare block_loop.simps [simp del]

text \<open>The part of the long branch guarded by \<^verbatim>\<open>if i > 48\<close>.\<close>

definition blocks :: "byte list \<Rightarrow> nat \<Rightarrow> u64 \<Rightarrow> (nat \<times> u64) option" where
  "blocks data len seed =
     (let i = len in
      if i > 48 then
        (case block_loop data len i (seed, seed, seed) of
           None \<Rightarrow> None
         | Some (i', seed', see1, see2) \<Rightarrow> Some (i', seed' XOR (see1 XOR see2)))
      else Some (i, seed))"

text \<open>The part of the long branch guarded by \<^verbatim>\<open>if i > 16\<close>.\<close>

definition tail_mix :: "byte list \<Rightarrow> nat \<Rightarrow> nat \<Rightarrow> u64 \<Rightarrow> u64 option" where
  "tail_mix data len i seed =
     (if i > 16 then
        (case slice_from data (len - i) of
           None \<Rightarrow> None
         | Some p \<Rightarrow>
             (case (read64 p 0 8, read64 p 8 16) of
                (Some w0, Some w1) \<Rightarrow>
                  (let seed1 = Mix (w0 XOR secret ! 2) (w1 XOR seed XOR secret ! 1) in
                   if i > 32 then
                     (case (read64 p 16 24, read64 p 24 32) of
                        (Some w2, Some w3) \<Rightarrow> Some (Mix (w2 XOR secret ! 2) (w3 XOR seed1))
                      | _ \<Rightarrow> None)
                   else Some seed1)
              | _ \<Rightarrow> None))
      else Some seed)"

text \<open>The closing lines of the long branch and of the function.\<close>

definition last_ab :: "byte list \<Rightarrow> nat \<Rightarrow> (u64 \<times> u64) option" where
  "last_ab data len =
     (case (read64 data (len - 16) (len - 8), Option.bind (slice_from data (len - 8)) Uint64) of
        (Some a, Some b) \<Rightarrow> Some (a, b)
      | _ \<Rightarrow> None)"

definition finish :: "nat \<Rightarrow> u64 \<Rightarrow> u64 \<times> u64 \<Rightarrow> u64" where
  "finish len seed ab =
     (case ab of (a, b) \<Rightarrow>
        (case Mul128 (a XOR secret ! 1) (b XOR seed) of (lo, hi) \<Rightarrow>
           Mix (lo XOR secret ! 0 XOR of_nat len) (hi XOR secret ! 1)))"

definition seed0 :: "nat \<Rightarrow> u64 \<Rightarrow> u64" where
  "seed0 len seed = seed XOR (Mix (seed XOR secret ! 0) (secret ! 1) XOR of_nat len)"

definition Hash :: "byte list \<Rightarrow> u64 \<Rightarrow> u64 option" where
  "Hash data seed =
     (let len = length data; seed = seed0 len seed in
      if len \<le> 16 then map_option (finish len seed) (short_ab data len)
      else
        (case blocks data len seed of
           None \<Rightarrow> None
         | Some (i, seed1) \<Rightarrow>
             (case tail_mix data len i seed1 of
                None \<Rightarrow> None
              | Some seed2 \<Rightarrow> map_option (finish len seed2) (last_ab data len))))"

section \<open>internal/stringhasher\<close>

definition FlagCount :: nat where
  "FlagCount = 8"

definition MaskTop8Bits :: "u64 \<Rightarrow> u32" where
  "MaskTop8Bits result =
     (let r = result AND (push_bit (32 - FlagCount) 1 - 1);
          r' = (if r = 0 then drop_bit FlagCount 0x80000000 else r)
      in ucast r')"

definition ComputeHashAndMaskTop8Bits :: "byte list \<Rightarrow> u64 \<Rightarrow> u32 option" where
  "ComputeHashAndMaskTop8Bits data seed = map_option MaskTop8Bits (Hash data seed)"

section \<open>hashmap: the table\<close>

text \<open>
  The table is generic in its key type \<^verbatim>\<open>K\<close>; \<^verbatim>\<open>hash\<close> inspects the dynamic type of a
  key with a type switch. A key is therefore a string or a value of some other comparable
  type. Go's \<^verbatim>\<open>int\<close> is modelled by \<open>int\<close>: the only arithmetic that could overflow is
  the doubling of the capacity, far beyond any table that can be allocated.
\<close>

datatype 'a key = StringKey string | OtherKey 'a

record ('k, 'v) Pair =
  Key :: 'k
  Value :: 'v

record ('k, 'v) HashMap =
  table :: "('k, 'v) Pair option list"
  size_hm :: int
  capacity :: int

definition initialCapacity :: int where
  "initialCapacity = 8"

definition maximumLoad :: int where
  "maximumLoad = 2"

definition make :: "int \<Rightarrow> error + ('k, 'v) Pair option list" where
  "make n = (if n < 0 then Inl LenOutOfRange else Inr (replicate (nat n) None))"

definition New :: "('k, 'v) HashMap" where
  "New = \<lparr>table = replicate (nat initialCapacity) None, size_hm = 0,
          capacity = initialCapacity\<rparr>"

text \<open>
  \<^verbatim>\<open>traits.CaseFoldingHash\<close> is not among the sources: the table functions take it as
  the parameter \<open>cfh\<close>.
\<close>

definition hash :: "(string \<Rightarrow> u32) \<Rightarrow> 'a key \<Rightarrow> u32" where
  "hash cfh key = (case key of StringKey k \<Rightarrow> cfh k | OtherKey _ \<Rightarrow> 0)"

definition index :: "('k, 'v) HashMap \<Rightarrow> u32 \<Rightarrow> int" where
  "index h c = uint (c AND word_of_int (capacity h - 1))"

text \<open>The read \<^verbatim>\<open>h.table[idx]\<close>, which panics out of range.\<close>

definition slot :: "('k, 'v) HashMap \<Rightarrow> int \<Rightarrow> error + ('k, 'v) Pair option" where
  "slot h idx =
     (if 0 \<le> idx \<and> idx < int (length (table h)) then Inr (table h ! nat idx)
      else Inl IndexOutOfRange)"

function find_loop ::
  "('k, 'v) HashMap \<Rightarrow> 'k \<Rightarrow> int \<Rightarrow> int \<Rightarrow> error + (int \<times> bool)" where
  "find_loop h key idx count =
     (case slot h idx of
        Inl e \<Rightarrow> Inl e
      | Inr None \<Rightarrow> Inr (idx, False)
      | Inr (Some p) \<Rightarrow>
          if Key p = key then Inr (idx, True)
          else if count + 1 \<ge> capacity h then Inr (idx, False)
          else find_loop h key ((idx + (count + 1)) AND (capacity h - 1)) (count + 1))"
  by pat_completeness auto
termination
  by (relation "measure (\<lambda>(h, key, idx, count). nat (capacity h - count))") auto

declare find_loop.simps [simp del]

definition find ::
  "(string \<Rightarrow> u32) \<Rightarrow> ('a key, 'v) HashMap \<Rightarrow> 'a key \<Rightarrow> error + (int \<times> bool)" where
  "find cfh h key = find_loop h key (index h (hash cfh key)) 0"

text \<open>The lines of \<^verbatim>\<open>Set\<close> after the rehash: locate the key, update or insert.\<close>

definition Set_store ::
  "(string \<Rightarrow> u32) \<Rightarrow> ('a key, 'v) HashMap \<Rightarrow> 'a key \<Rightarrow> 'v \<Rightarrow> error + ('a key, 'v) HashMap" where
  "Set_store cfh h key val =
     (case find cfh h key of
        Inl e \<Rightarrow> Inl e
      | Inr (idx, found) \<Rightarrow>
          (case slot h idx of
             Inl e \<Rightarrow> Inl e
           | Inr s \<Rightarrow>
               if found then
                 (case s of
                    None \<Rightarrow> Inl NilDereference
                  | Some p \<Rightarrow> Inr (h\<lparr>table := (table h)[nat idx := Some (p\<lparr>Value := val\<rparr>)]\<rparr>))
               else
                 Inr (h\<lparr>table := (table h)[nat idx := Some \<lparr>Key = key, Value = val\<rparr>],
                        size_hm := size_hm h + 1\<rparr>)))"

text \<open>
  \<^verbatim>\<open>Set\<close> and \<^verbatim>\<open>rehash\<close> call each other. The model counts the depth of these calls
  down from a fuel: \<open>None\<close> means the fuel ran out, \<open>Some (Inl e)\<close> a panic and
  \<open>Some (Inr h)\<close> the table after the call. The loop of \<^verbatim>\<open>rehash\<close> over the old slots
  takes the function to call for each pair as its first argument.
\<close>

fun rehash_loop ::
  "(('k, 'v) HashMap \<Rightarrow> 'k \<Rightarrow> 'v \<Rightarrow> (error + ('k, 'v) HashMap) option) \<Rightarrow>
   ('k, 'v) Pair option list \<Rightarrow> ('k, 'v) HashMap \<Rightarrow> (error + ('k, 'v) HashMap) option" where
  "rehash_loop setf [] h = Some (Inr h)"
| "rehash_loop setf (None # old) h = rehash_loop setf old h"
| "rehash_loop setf (Some pair # old) h =
     (case setf h (Key pair) (Value pair) of
        Some (Inr h') \<Rightarrow> rehash_loop setf old h'
      | r \<Rightarrow> r)"

definition rehash_with ::
  "(('k, 'v) HashMap \<Rightarrow> 'k \<Rightarrow> 'v \<Rightarrow> (error + ('k, 'v) HashMap) option) \<Rightarrow>
   ('k, 'v) HashMap \<Rightarrow> (error + ('k, 'v) HashMap) option" where
  "rehash_with setf h =
     (let old = table h; cap = capacity h * 2 in
      case make cap of
        Inl e \<Rightarrow> Some (Inl e)
      | Inr t \<Rightarrow> rehash_loop setf old (h\<lparr>capacity := cap, table := t, size_hm := 0\<rparr>))"

primrec Set_fuel ::
  "(string \<Rightarrow> u32) \<Rightarrow> nat \<Rightarrow> ('a key, 'v) HashMap \<Rightarrow> 'a key \<Rightarrow> 'v \<Rightarrow>
   (error + ('a key, 'v) HashMap) option" where
  "Set_fuel cfh 0 h key val = None"
| "Set_fuel cfh (Suc n) h key val =
     (case (if (size_hm h + 1) * maximumLoad \<ge> capacity h
            then rehash_with (Set_fuel cfh n) h else Some (Inr h)) of
        Some (Inr h') \<Rightarrow> Some (Set_store cfh h' key val)
      | r \<Rightarrow> r)"

definition rehash_fuel ::
  "(string \<Rightarrow> u32) \<Rightarrow> nat \<Rightarrow> ('a key, 'v) HashMap \<Rightarrow> (error + ('a key, 'v) HashMap) option" where
  "rehash_fuel cfh n h = rehash_with (Set_fuel cfh n) h"

definition occupied :: "('k, 'v) Pair option list \<Rightarrow> nat" where
  "occupied t = length (filter (\<lambda>s. s \<noteq> None) t)"

text \<open>
  Each nested rehash re-inserts fewer pairs than the one around it, so the depth of the
  calls is bounded by the number of occupied slots.
\<close>

definition Set_hm ::
  "(string \<Rightarrow> u32) \<Rightarrow> ('a key, 'v) HashMap \<Rightarrow> 'a key \<Rightarrow> 'v \<Rightarrow>
   (error + ('a key, 'v) HashMap) option" where
  "Set_hm cfh h key val = Set_fuel cfh (occupied (table h) + 2) h key val"

definition Get ::
  "(string \<Rightarrow> u32) \<Rightarrow> ('a key, 'v::zero) HashMap \<Rightarrow> 'a key \<Rightarrow> error + ('v \<times> bool)" where
  "Get cfh h key =
     (case find cfh h key of
        Inl e \<Rightarrow> Inl e
      | Inr (idx, found) \<Rightarrow>
          if \<not> found then Inr (0, False)
          else (case slot h idx of
                  Inl e \<Rightarrow> Inl e
                | Inr None \<Rightarrow> Inl NilDereference
                | Inr (Some p) \<Rightarrow> Inr (Value p, True)))"

definition Contains ::
  "(string \<Rightarrow> u32) \<Rightarrow> ('a key, 'v) HashMap \<Rightarrow> 'a key \<Rightarrow> error + bool" where
  "Contains cfh h key =
     (case find cfh h key of Inl e \<Rightarrow> Inl e | Inr (idx, found) \<Rightarrow> Inr found)"

definition Delete ::
  "(string \<Rightarrow> u32) \<Rightarrow> ('a key, 'v) HashMap \<Rightarrow> 'a key \<Rightarrow> error + (('a key, 'v) HashMap \<times> bool)" where
  "Delete cfh h key =
     (case find cfh h key of
        Inl e \<Rightarrow> Inl e
      | Inr (idx, found) \<Rightarrow>
          if \<not> found then Inr (h, False)
          else (case slot h idx of
                  Inl e \<Rightarrow> Inl e
                | Inr _ \<Rightarrow>
                    Inr (h\<lparr>table := (table h)[nat idx := None], size_hm := size_hm h - 1\<rparr>,
                         True)))"

definition Clear :: "('k, 'v) HashMap \<Rightarrow> ('k, 'v) HashMap" where
  "Clear h = h\<lparr>table := replicate (nat initialCapacity) None,
               capacity := initialCapacity, size_hm := 0\<rparr>"

definition Size :: "('k, 'v) HashMap \<Rightarrow> int" where
  "Size h = size_hm h"

definition Capacity :: "('k, 'v) HashMap \<Rightarrow> int" where
  "Capacity h = capacity h"

text \<open>
  \<^verbatim>\<open>Iter\<close> pushes the pairs of the occupied slots, in slot order, to \<open>yield\<close>, which
  threads the consumer's state and says whether to go on.
\<close>

fun Iter_loop ::
  "('k \<Rightarrow> 'v \<Rightarrow> 's \<Rightarrow> 's \<times> bool) \<Rightarrow> ('k, 'v) Pair option list \<Rightarrow> 's \<Rightarrow> 's" where
  "Iter_loop yield [] s = s"
| "Iter_loop yield (None # ps) s = Iter_loop yield ps s"
| "Iter_loop yield (Some pair # ps) s =
     (case yield (Key pair) (Value pair) s of
        (s', continue) \<Rightarrow> if \<not> continue then s' else Iter_loop yield ps s')"

definition Iter :: "('k, 'v) HashMap \<Rightarrow> ('k \<Rightarrow> 'v \<Rightarrow> 's \<Rightarrow> 's \<times> bool) \<Rightarrow> 's \<Rightarrow> 's" where
  "Iter h yield s = Iter_loop yield (table h) s"

text \<open>A consumer that collects every pair and never stops.\<close>

definition collect :: "'k \<Rightarrow> 'v \<Rightarrow> ('k \<times> 'v) list \<Rightarrow> ('k \<times> 'v) list \<times> bool" where
  "collect k v acc = (acc @ [(k, v)], True)"

subsection \<open>Sequences of calls\<close>

datatype ('k, 'v) call = CallSet 'k 'v | CallGet 'k | CallContains 'k | CallDelete 'k | CallClear

fun do_call ::
  "(string \<Rightarrow> u32) \<Rightarrow> ('a key, 'v::zero) HashMap \<Rightarrow> ('a key, 'v) call \<Rightarrow>
   (error + ('a key, 'v) HashMap) option" where
  "do_call cfh h (CallSet k v) = Set_hm cfh h k v"
| "do_call cfh h (CallGet k) =
     (case Get cfh h k of Inl e \<Rightarrow> Some (Inl e) | Inr _ \<Rightarrow> Some (Inr h))"
| "do_call cfh h (CallContains k) =
     (case Contains cfh h k of Inl e \<Rightarrow> Some (Inl e) | Inr _ \<Rightarrow> Some (Inr h))"
| "do_call cfh h (CallDelete k) =
     (case Delete cfh h k of Inl e \<Rightarrow> Some (Inl e) | Inr (h', _) \<Rightarrow> Some (Inr h'))"
| "do_call cfh h CallClear = Some (Inr (Clear h))"

fun run ::
  "(string \<Rightarrow> u32) \<Rightarrow> ('a key, 'v::zero) HashMap \<Rightarrow> ('a key, 'v) call list \<Rightarrow>
   (error + ('a key, 'v) HashMap) option" where
  "run cfh h [] = Some (Inr h)"
| "run cfh h (c # cs) =
     (case do_call cfh h c of
        Some (Inr h') \<Rightarrow> run cfh h' cs
      | r \<Rightarrow> r)"

subsection \<open>The probe sequence in closed form\<close>

text \<open>
  The search written with the slot of the \<open>i\<close>-th probe given directly as
  \<open>(initial_index + offset i) & (capacity - 1)\<close>, for a choice of \<open>offset\<close>: the
  specification's \<open>i\<close>, and the triangular numbers.
\<close>

definition linear_offset :: "int \<Rightarrow> int" where
  "linear_offset i = i"

definition triangular_offset :: "int \<Rightarrow> int" where
  "triangular_offset i = i * (i + 1) div 2"

function probe_loop ::
  "(int \<Rightarrow> int) \<Rightarrow> ('k, 'v) HashMap \<Rightarrow> 'k \<Rightarrow> int \<Rightarrow> int \<Rightarrow> error + (int \<times> bool)" where
  "probe_loop offset h key start i =
     (let idx = (start + offset i) AND (capacity h - 1) in
      case slot h idx of
        Inl e \<Rightarrow> Inl e
      | Inr None \<Rightarrow> Inr (idx, False)
      | Inr (Some p) \<Rightarrow>
          if Key p = key then Inr (idx, True)
          else if i + 1 \<ge> capacity h then Inr (idx, False)
          else probe_loop offset h key start (i + 1))"
  by pat_completeness auto
termination
  by (relation "measure (\<lambda>(offset, h, key, start, i). nat (capacity h - i))") auto

declare probe_loop.simps [simp del]

definition find_spec ::
  "(string \<Rightarrow> u32) \<Rightarrow> ('a key, 'v) HashMap \<Rightarrow> 'a key \<Rightarrow> error + (int \<times> bool)" where
  "find_spec cfh h key = probe_loop linear_offset h key (index h (hash cfh key)) 0"

definition find_triangular ::
  "(string \<Rightarrow> u32) \<Rightarrow> ('a key, 'v) HashMap \<Rightarrow> 'a key \<Rightarrow> error + (int \<times> bool)" where
  "find_triangular cfh h key = probe_loop triangular_offset h key (index h (hash cfh key)) 0"

subsection \<open>A case-folding hash for concrete runs\<close>

text \<open>
  Modelled from the spec: \<^verbatim>\<open>traits.CaseFoldingHash\<close> is missing from the sources. The
  specification describes it as a case normalisation of the key's bytes followed by the
  mixing hash and the code mask with the fixed seed; ASCII letters are folded to lower
  case here. The theorems about the table hold for every \<open>cfh\<close>; this function only
  serves as the string hash of concrete runs.
\<close>

definition fold_ascii :: "byte \<Rightarrow> byte" where
  "fold_ascii b = (if 0x41 \<le> b \<and> b \<le> 0x5A then b + 0x20 else b)"

definition bytes_of :: "string \<Rightarrow> byte list" where
  "bytes_of s = map (\<lambda>c. of_nat (of_char c)) s"

definition CaseFoldingHash :: "string \<Rightarrow> u32" where
  "CaseFoldingHash s =
     (case ComputeHashAndMaskTop8Bits (map fold_ascii (bytes_of s)) SEED of
        Some c \<Rightarrow> c
      | None \<Rightarrow> 0)"

subsection \<open>Invariants of the table\<close>

text \<open>
  The shape every table built by the public operations has: the capacity is a power of
  two, at least 8, the slot array has that length, and \<open>size\<close> counts the occupied slots.
  A table is well formed when, in addition, less than half of its slots are occupied.
\<close>

definition struct_ok :: "('k, 'v) HashMap \<Rightarrow> bool" where
  "struct_ok h \<longleftrightarrow>
     (\<exists>k. 3 \<le> k \<and> capacity h = 2 ^ k) \<and> int (length (table h)) = capacity h \<and>
     size_hm h = int (occupied (table h))"

definition wf :: "('k, 'v) HashMap \<Rightarrow> bool" where
  "wf h \<longleftrightarrow> struct_ok h \<and> size_hm h * 2 < capacity h"

text \<open>The slot of the \<open>i\<close>-th probe from \<open>start\<close>.\<close>

definition probe :: "('k, 'v) HashMap \<Rightarrow> int \<Rightarrow> int \<Rightarrow> int" where
  "probe h start i = (start + triangular_offset i) AND (capacity h - 1)"

text \<open>Every stored key is found by the search, in the slot that holds it.\<close>

definition findable :: "(string \<Rightarrow> u32) \<Rightarrow> ('a key, 'v) HashMap \<Rightarrow> bool" where
  "findable cfh h \<longleftrightarrow>
     (\<forall>i p. i < length (table h) \<and> table h ! i = Some p \<longrightarrow>
        find cfh h (Key p) = Inr (int i, True))"

text \<open>The finite map a table stands for: what the search finds for each key.\<close>

definition abs_map :: "(string \<Rightarrow> u32) \<Rightarrow> ('a key, 'v) HashMap \<Rightarrow> 'a key \<Rightarrow> 'v option" where
  "abs_map cfh h key =
     (case find cfh h key of
        Inr (idx, found) \<Rightarrow> if found then map_option Value (table h ! nat idx) else None
      | Inl e \<Rightarrow> None)"

subsection \<open>Example tables\<close>

text \<open>
  Keys of a type other than string all hash to 0. After inserting the keys 1, 2 and 3
  into a fresh table they sit in the slots 0, 1 and 3.
\<close>

definition three_keys :: "(nat key, int) HashMap" where
  "three_keys =
     \<lparr>table = [Some \<lparr>Key = OtherKey 1, Value = 10\<rparr>, Some \<lparr>Key = OtherKey 2, Value = 20\<rparr>,
               None, Some \<lparr>Key = OtherKey 3, Value = 30\<rparr>, None, None, None, None],
      size_hm = 3, capacity = 8\<rparr>"

section \<open>The long branch of the mixing hash in the words of the specification\<close>

text \<open>
  A description of the hash of an input of more than 16 bytes that shares nothing with the
  translation of the source above. A word is the value of eight bytes read as a
  little-endian number; \<open>mix\<close> is the XOR of the two 64-bit halves of the full 128-bit
  product, computed on 128-bit words; the three secrets are named constants.
\<close>

definition secret0 :: u64 where
  "secret0 = 0x2d358dccaa6c78a5"

definition secret1 :: u64 where
  "secret1 = 0x8bb84b93962eacc9"

definition secret2 :: u64 where
  "secret2 = 0x4b33a62ed433d4a3"

definition product128 :: "u64 \<Rightarrow> u64 \<Rightarrow> 128 word" where
  "product128 a b = ucast a * ucast b"

definition low64 :: "128 word \<Rightarrow> u64" where
  "low64 p = ucast p"

definition high64 :: "128 word \<Rightarrow> u64" where
  "high64 p = ucast (drop_bit 64 p)"

definition mix :: "u64 \<Rightarrow> u64 \<Rightarrow> u64" where
  "mix a b = low64 (product128 a b) XOR high64 (product128 a b)"

definition le_value :: "byte list \<Rightarrow> nat" where
  "le_value bs = foldr (\<lambda>b n. unat b + 256 * n) bs 0"

definition word_at :: "byte list \<Rightarrow> nat \<Rightarrow> u64" where
  "word_at p off = of_nat (le_value (take 8 (drop off p)))"

text \<open>
  \<open>rolling_blocks n p s\<close> takes \<open>n\<close> blocks of 48 bytes from the front of \<open>p\<close>. Each
  block updates the three rolling seeds, every one from two words of the block, its own
  secret and its previous value.
\<close>

fun rolling_blocks :: "nat \<Rightarrow> byte list \<Rightarrow> u64 \<times> u64 \<times> u64 \<Rightarrow> u64 \<times> u64 \<times> u64" where
  "rolling_blocks 0 p s = s"
| "rolling_blocks (Suc n) p (seed, see1, see2) =
     rolling_blocks n (drop 48 p)
       (mix (word_at p 0 XOR secret0) (word_at p 8 XOR seed),
        mix (word_at p 16 XOR secret1) (word_at p 24 XOR see1),
        mix (word_at p 32 XOR secret2) (word_at p 40 XOR see2))"

text \<open>
  The number of blocks taken from an input of \<open>len\<close> bytes. The specification takes a
  block while at least 48 bytes remain (\<open>blocks_claimed\<close>); \<open>blocks_entered\<close> takes none
  unless the input is longer than 48 bytes.
\<close>

definition blocks_claimed :: "nat \<Rightarrow> nat" where
  "blocks_claimed len = len div 48"

definition blocks_entered :: "nat \<Rightarrow> nat" where
  "blocks_entered len = (if 48 < len then len div 48 else 0)"

text \<open>
  The seed after the long branch: the blocks, the XOR of the three rolling seeds, one pass
  over the first two words of the remaining tail when it is longer than 16 bytes, and one
  more over its next two words when it is longer than 32 bytes.
\<close>

definition long_seed :: "(nat \<Rightarrow> nat) \<Rightarrow> byte list \<Rightarrow> u64 \<Rightarrow> u64" where
  "long_seed count data seed =
     (case rolling_blocks (count (length data)) data (seed, seed, seed) of
        (s, see1, see2) \<Rightarrow>
          (let s1 = s XOR see1 XOR see2;
               rest = drop (48 * count (length data)) data;
               s2 = (if 16 < length rest
                     then mix (word_at rest 0 XOR secret2) (word_at rest 8 XOR s1 XOR secret1)
                     else s1)
           in if 32 < length rest
              then mix (word_at rest 16 XOR secret2) (word_at rest 24 XOR s2)
              else s2))"

definition MixHash_long :: "(nat \<Rightarrow> nat) \<Rightarrow> byte list \<Rightarrow> u64 \<Rightarrow> u64" where
  "MixHash_long count data seed =
     (let len = length data;
          s0 = seed XOR mix (seed XOR secret0) secret1 XOR of_nat len;
          s = long_seed count data s0;
          a = word_at data (len - 16) XOR secret1;
          b = word_at data (len - 8) XOR s;
          p = product128 a b
      in mix (low64 p XOR secret0 XOR of_nat len) (high64 p XOR secret1))"

section \<open>Verification: masks and triangular numbers\<close>

lemma and_pow2_mask: "(x::int) AND (2 ^ k - 1) = x mod 2 ^ k"
proof -
  have "(2 ^ k - 1 :: int) = mask k" by (simp add: mask_eq_exp_minus_1)
  then show ?thesis by (simp add: take_bit_eq_mod flip: take_bit_eq_mask)
qed

lemma index_pow2:
  assumes "capacity h = 2 ^ k"
  shows "index h c = uint c mod 2 ^ k"
proof -
  have "(word_of_int (2 ^ k - 1) :: u32) = mask k" by (simp add: mask_eq_exp_minus_1)
  then have "index h c = uint (take_bit k c)"
    using assms by (simp add: index_def take_bit_eq_mask)
  also have "\<dots> = take_bit k (uint c)" by (rule unsigned_take_bit_eq)
  finally show ?thesis by (simp add: take_bit_eq_mod)
qed

lemma tri_step: "triangular_offset (n + 1) = triangular_offset n + (n + 1)"
proof -
  have "(n + 1) * (n + 1 + 1) = n * (n + 1) + (n + 1) * 2" by algebra
  then show ?thesis by (simp add: triangular_offset_def)
qed

lemma tri_double: "2 * triangular_offset n = n * (n + 1)"
proof -
  have "even (n * (n + 1))" by simp
  then show ?thesis unfolding triangular_offset_def by simp
qed

lemma tri_zero: "triangular_offset 0 = 0"
  by (simp add: triangular_offset_def)

lemma pow2_dvd_odd_mult:
  fixes a b :: int
  assumes "2 ^ n dvd a * b" "odd a"
  shows "2 ^ n dvd b"
proof -
  have "coprime (2 ^ n) a" using assms(2) by simp
  with assms(1) show ?thesis by (simp add: coprime_dvd_mult_right_iff)
qed

lemma tri_inj:
  fixes i j :: int
  assumes "0 \<le> i" "i < j" "j < 2 ^ k"
  shows "(s + triangular_offset i) mod 2 ^ k \<noteq> (s + triangular_offset j) mod 2 ^ k"
proof
  assume "(s + triangular_offset i) mod 2 ^ k = (s + triangular_offset j) mod 2 ^ k"
  then have "(2::int) ^ k dvd (s + triangular_offset j) - (s + triangular_offset i)"
    by (metis mod_eq_dvd_iff)
  then have "(2::int) ^ k dvd triangular_offset j - triangular_offset i" by simp
  then have "2 * (2::int) ^ k dvd 2 * (triangular_offset j - triangular_offset i)"
    by (rule mult_dvd_mono [OF dvd_refl])
  moreover have "2 * (triangular_offset j - triangular_offset i) = (j - i) * (j + i + 1)"
    by (simp add: right_diff_distrib tri_double) algebra
  ultimately have d: "(2::int) ^ Suc k dvd (j - i) * (j + i + 1)" by simp
  show False
  proof (cases "odd (j - i)")
    case True
    with d have "(2::int) ^ Suc k dvd j + i + 1" by (rule pow2_dvd_odd_mult)
    moreover have "0 < j + i + 1" "j + i + 1 < 2 ^ Suc k" using assms by simp_all
    ultimately show False by (meson zdvd_not_zless)
  next
    case False
    then have "odd (j + i + 1)" by simp
    moreover from d have "(2::int) ^ Suc k dvd (j + i + 1) * (j - i)" by (simp add: mult.commute)
    ultimately have "(2::int) ^ Suc k dvd j - i" by (rule pow2_dvd_odd_mult [rotated])
    moreover have "0 < j - i" "j - i < 2 ^ Suc k" using assms by simp_all
    ultimately show False by (meson zdvd_not_zless)
  qed
qed

section \<open>Verification: the probe sequence\<close>

lemma find_loop_probe:
  assumes cap: "capacity h = 2 ^ k"
  shows "find_loop h key ((start + triangular_offset n) mod 2 ^ k) n =
         probe_loop triangular_offset h key start n"
proof (induction "nat (capacity h - n)" arbitrary: n)
  case 0
  then have ge: "2 ^ k \<le> n + 1" by (simp add: cap)
  show ?case
    by (subst find_loop.simps, subst probe_loop.simps)
       (simp add: cap and_pow2_mask ge Let_def split: sum.splits option.splits)
next
  case (Suc m)
  have IH: "find_loop h key ((start + triangular_offset (n + 1)) mod 2 ^ k) (n + 1) =
            probe_loop triangular_offset h key start (n + 1)"
    using Suc.hyps(2) by (intro Suc.hyps(1)) simp
  have step: "((start + triangular_offset n) mod 2 ^ k + (n + 1)) mod 2 ^ k =
              (start + triangular_offset (n + 1)) mod 2 ^ k"
    by (simp add: tri_step mod_add_left_eq add.assoc)
  show ?case
    apply (subst find_loop.simps, subst probe_loop.simps)
    apply (simp only: cap and_pow2_mask Let_def step IH)
    done
qed

lemma find_triangular_eq:
  assumes "capacity h = 2 ^ k"
  shows "find cfh h key = find_triangular cfh h key"
proof -
  have "index h (hash cfh key) = (index h (hash cfh key) + triangular_offset 0) mod 2 ^ k"
    by (simp add: index_pow2 [OF assms] tri_zero)
  then show ?thesis
    unfolding find_def find_triangular_def
    using find_loop_probe [OF assms, of key "index h (hash cfh key)" 0] by simp
qed

lemma three_keys_find: "find CaseFoldingHash three_keys (OtherKey 4) = Inr (6, False)"
  by (simp add: find_def index_def hash_def three_keys_def find_loop.simps slot_def)

lemma three_keys_find_spec: "find_spec CaseFoldingHash three_keys (OtherKey 4) = Inr (2, False)"
  by (simp add: find_spec_def index_def hash_def three_keys_def probe_loop.simps slot_def linear_offset_def Let_def)

section \<open>Evaluation of concrete runs\<close>

lemma Set_hm_unfold:
  "Set_hm cfh h k v =
     (case (if (size_hm h + 1) * maximumLoad \<ge> capacity h
            then rehash_with (Set_fuel cfh (Suc (occupied (table h)))) h else Some (Inr h)) of
        Some (Inr h') \<Rightarrow> Some (Set_store cfh h' k v)
      | r \<Rightarrow> r)"
  by (simp add: Set_hm_def)

lemma replicate_8: "replicate 8 x = [x, x, x, x, x, x, x, x]"
  by (simp add: numeral_eq_Suc)

lemma replicate_16: "replicate 16 x = [x, x, x, x, x, x, x, x, x, x, x, x, x, x, x, x]"
  by (simp add: numeral_eq_Suc)

lemmas table_eval =
  replicate_8 replicate_16
  Set_hm_unfold Set_store_def find_def index_def hash_def find_loop.simps slot_def
  New_def initialCapacity_def maximumLoad_def rehash_with_def make_def occupied_def
  Get_def Contains_def Delete_def Clear_def Let_def

lemma run3: "run CaseFoldingHash New [CallSet (OtherKey 1) 10, CallSet (OtherKey 2) 20, CallSet (OtherKey 3) 30] = Some (Inr three_keys)"
  by (simp add: table_eval three_keys_def)

section \<open>Verification: the code mask\<close>

lemma mask24: "(h::u64) AND (2^24 - 1) = take_bit 24 h"
proof -
  have "(2^24 - 1 :: u64) = mask 24" by (simp add: mask_eq_exp_minus_1)
  then show ?thesis by (simp add: take_bit_eq_mask)
qed

lemma unat_low24: "unat ((h::u64) AND (2^24 - 1)) = unat h mod 2^24"
proof -
  have "unat (take_bit 24 h) = take_bit 24 (unat h)" by (rule unsigned_take_bit_eq)
  also have "\<dots> = unat h mod 2^24" by (rule take_bit_eq_mod)
  finally show ?thesis by (simp only: mask24)
qed

lemma unat_ucast_low24: "unat (ucast ((h::u64) AND (2^24 - 1)) :: u32) = unat h mod 2^24"
proof -
  have lt: "unat h mod 2^24 < (2^32 :: nat)"
    by (rule less_trans [OF mod_less_divisor]) simp_all
  have "unat (ucast ((h::u64) AND (2^24 - 1)) :: u32) = take_bit 32 (unat (h AND (2^24 - 1)))"
    using unsigned_ucast_eq [where 'c = 32 and 'a = nat and w = "h AND (2^24 - 1)"] by simp
  also have "\<dots> = take_bit 32 (unat h mod 2^24)" by (simp only: unat_low24)
  also have "\<dots> = unat h mod 2^24" using lt by (simp only: take_bit_nat_eq_self)
  finally show ?thesis .
qed

lemma low24_zero: "((h::u64) AND (2^24 - 1) = 0) = (unat h mod 2^24 = 0)"
proof -
  have "(h AND (2^24 - 1) = 0) = (unat (h AND (2^24 - 1)) = 0)"
    by (simp only: unsigned_eq_0_iff)
  then show ?thesis by (simp only: unat_low24)
qed

lemma MaskTop8Bits_cases:
  "MaskTop8Bits h = (if h AND (2^24 - 1) = 0 then 2^23 else ucast (h AND (2^24 - 1)))"
  by (simp add: MaskTop8Bits_def FlagCount_def Let_def)

lemma MaskTop8Bits_unat:
  "unat (MaskTop8Bits h) = (if unat h mod 2^24 = 0 then 2^23 else unat h mod 2^24)"
proof (cases "h AND (2^24 - 1) = 0")
  case True
  with low24_zero [of h] have z: "unat h mod 2^24 = 0" by blast
  have "MaskTop8Bits h = 2^23" by (simp only: MaskTop8Bits_cases if_P [OF True])
  then have e: "unat (MaskTop8Bits h) = 2^23" by simp
  show ?thesis by (simp only: e if_P [OF z])
next
  case False
  with low24_zero [of h] have z: "unat h mod 2^24 \<noteq> 0" by blast
  from False have "MaskTop8Bits h = ucast (h AND (2^24 - 1))"
    by (simp only: MaskTop8Bits_cases if_False)
  then have e: "unat (MaskTop8Bits h) = unat h mod 2^24" by (simp only: unat_ucast_low24)
  show ?thesis by (simp only: e if_not_P [OF z])
qed

text \<open>
  Claim C5. For every 64-bit input, \<open>MaskTop8Bits\<close> returns the low 24 bits as a 32-bit
  value when they are not all zero and the sentinel \<open>2 ^ 23\<close> when they are; the result
  is therefore never 0 and always below \<open>2 ^ 24\<close>.
\<close>

theorem MaskTop8Bits_correct:
  "MaskTop8Bits h = (if h AND (2^24 - 1) = 0 then 2^23 else ucast (h AND (2^24 - 1)))
   \<and> MaskTop8Bits h \<noteq> 0
   \<and> unat (MaskTop8Bits h) < 2^24
   \<and> unat (MaskTop8Bits h) = (if unat h mod 2^24 = 0 then 2^23 else unat h mod 2^24)"
proof -
  have u: "unat (MaskTop8Bits h) = (if unat h mod 2^24 = 0 then 2^23 else unat h mod 2^24)"
    by (rule MaskTop8Bits_unat)
  have nz: "unat (MaskTop8Bits h) \<noteq> 0" unfolding u by simp
  then have b: "MaskTop8Bits h \<noteq> 0" by (simp only: unsigned_eq_0_iff not_False_eq_True)
  have c: "unat (MaskTop8Bits h) < 2^24" unfolding u by simp
  from MaskTop8Bits_cases [of h] b c u show ?thesis by blast
qed

text \<open>The inputs 0, one with only high bits set, and one with low bits set.\<close>

theorem MaskTop8Bits_witness:
  "MaskTop8Bits 0 = 0x800000 \<and> MaskTop8Bits 0xAB000000 = 0x800000 \<and> MaskTop8Bits 0x123456789 = 0x456789"
  using MaskTop8Bits_correct [where h = 0] MaskTop8Bits_correct [where h = "0xAB000000"] MaskTop8Bits_correct [where h = "0x123456789"]
  by simp

section \<open>Verification: the long branch of the mixing hash\<close>

subsection \<open>Words, products and the mixing primitive\<close>

lemma le_bytes_value: "(le_bytes bs :: 'a::len word) = of_nat (le_value bs)"
proof (induction bs)
  case Nil
  show ?case by (simp add: le_value_def)
next
  case (Cons b bs)
  have v: "le_value (b # bs) = unat b + 256 * le_value bs" by (simp add: le_value_def)
  have d: "(ucast b :: 'a word) + push_bit 8 (le_bytes bs) = ucast b OR push_bit 8 (le_bytes bs)"
    by (rule disjunctive_add) (auto simp add: bit_ucast_iff bit_push_bit_iff dest: bit_imp_le_length)
  have u: "(ucast b :: 'a word) = of_nat (unat b)" by (simp only: of_nat_unat)
  have p: "push_bit 8 (le_bytes bs :: 'a word) = of_nat (256 * le_value bs)"
    by (simp only: Cons.IH push_bit_of_nat push_bit_eq_mult) simp
  have "(le_bytes (b # bs) :: 'a word) = ucast b OR push_bit 8 (le_bytes bs)" by simp
  also have "\<dots> = ucast b + push_bit 8 (le_bytes bs)" by (simp only: d)
  also have "\<dots> = of_nat (unat b) + of_nat (256 * le_value bs)" by (simp only: u p)
  also have "\<dots> = of_nat (unat b + 256 * le_value bs)" by (simp only: of_nat_add)
  also have "\<dots> = of_nat (le_value (b # bs))" by (simp only: v)
  finally show ?case .
qed

lemma unat_product128: "unat (product128 a b) = unat a * unat b"
proof -
  have ua: "unat (ucast a :: 128 word) = unat a" and ub: "unat (ucast b :: 128 word) = unat b"
    by (simp_all add: unsigned_ucast_eq take_bit_nat_eq_self unsigned_less [where 'b = 64, simplified] less_trans [OF unsigned_less [where 'b = 64 and 'a = nat]])
  have "unat a < 2 ^ 64" "unat b < 2 ^ 64" using unsigned_less [of a, where 'a = nat] unsigned_less [of b, where 'a = nat] by simp_all
  then have "unat a * unat b < 2 ^ 64 * 2 ^ 64" by (rule mult_strict_mono) simp_all
  then have "unat (ucast a :: 128 word) * unat (ucast b :: 128 word) < 2 ^ LENGTH(128)"
    by (simp add: ua ub)
  then have "unat ((ucast a :: 128 word) * ucast b) = unat (ucast a :: 128 word) * unat (ucast b :: 128 word)"
    by (simp only: unat_mult_lem)
  then show ?thesis by (simp add: product128_def ua ub)
qed

lemma Mul128_product: "Mul128 a b = (low64 (product128 a b), high64 (product128 a b))"
proof -
  have l: "low64 (product128 a b) = of_nat (unat (product128 a b))"
    by (simp only: low64_def of_nat_unat)
  have h: "high64 (product128 a b) = of_nat (unat (drop_bit 64 (product128 a b)))"
    by (simp only: high64_def of_nat_unat)
  have "unat (drop_bit 64 (product128 a b)) = drop_bit 64 (unat (product128 a b))"
    by (rule unat_drop_bit_eq)
  also have "\<dots> = unat (product128 a b) div 2 ^ 64" by (rule drop_bit_eq_div)
  finally have "unat (drop_bit 64 (product128 a b)) = unat a * unat b div 2 ^ 64"
    by (simp only: unat_product128)
  then have h': "high64 (product128 a b) = of_nat (unat a * unat b div 2 ^ 64)"
    by (simp only: h)
  have l': "low64 (product128 a b) = of_nat (unat a * unat b)"
    by (simp only: l unat_product128)
  show ?thesis
    by (simp only: Mul128_def l' h' Let_def)
qed

lemma Mix_mix: "Mix a b = mix a b"
  by (simp add: Mix_def mix_def Mul128_product)

lemma secret_nth:
  "secret ! 0 = secret0" "secret ! 1 = secret1" "secret ! Suc 0 = secret1" "secret ! 2 = secret2"
  by (simp_all add: secret_def secret0_def secret1_def secret2_def)

lemma read64_word: "hi = lo + 8 \<Longrightarrow> hi \<le> length p \<Longrightarrow> read64 p lo hi = Some (word_at p lo)"
  by (simp add: read64_def slice_def Uint64_def word_at_def le_bytes_value)

lemma slice_from_drop: "lo \<le> length p \<Longrightarrow> slice_from p lo = Some (drop lo p)"
  by (simp add: slice_from_def slice_def)

lemma block_step_mix:
  "48 \<le> length p \<Longrightarrow>
   block_step p (seed, see1, see2) =
     Some (mix (word_at p 0 XOR secret0) (word_at p 8 XOR seed),
           mix (word_at p 16 XOR secret1) (word_at p 24 XOR see1),
           mix (word_at p 32 XOR secret2) (word_at p 40 XOR see2))"
  by (simp add: block_step_def read64_word secret_nth Mix_mix)

lemma block_loop_rolling:
  "len = length data \<Longrightarrow> i \<le> len \<Longrightarrow>
   block_loop data len i s = Some (i mod 48, rolling_blocks (i div 48) (drop (len - i) data) s)"
proof (induction data len i s rule: block_loop.induct)
  case (1 data len i s)
  obtain seed see1 see2 where s: "s = (seed, see1, see2)" by (cases s)
  show ?case
  proof (cases "48 \<le> i")
    case True
    define p where "p = drop (len - i) data"
    define s' where "s' = (mix (word_at p 0 XOR secret0) (word_at p 8 XOR seed),
           mix (word_at p 16 XOR secret1) (word_at p 24 XOR see1),
           mix (word_at p 32 XOR secret2) (word_at p 40 XOR see2))"
    from "1.prems" have sl: "slice_from data (len - i) = Some p"
      by (simp add: slice_from_drop p_def)
    from "1.prems" True have lp: "48 \<le> length p" by (simp add: p_def)
    then have bs: "block_step p s = Some s'" by (simp add: s s'_def block_step_mix)
    from "1.prems" have "i - 48 \<le> len" by simp
    from "1.IH" [OF True sl bs "1.prems"(1) this]
    have ih: "block_loop data len (i - 48) s' =
        Some ((i - 48) mod 48, rolling_blocks ((i - 48) div 48) (drop (len - (i - 48)) data) s')" .
    from True "1.prems" have "len - (i - 48) = 48 + (len - i)" by arith
    then have dr: "drop (len - (i - 48)) data = drop 48 p"
      by (simp only: p_def drop_drop)
    from True have dv: "i div 48 = Suc ((i - 48) div 48)" by (simp add: le_div_geq)
    from True have md: "(i - 48) mod 48 = i mod 48" by (simp add: le_mod_geq)
    have "block_loop data len i s = block_loop data len (i - 48) s'"
      by (subst block_loop.simps) (simp add: True sl bs)
    also have "\<dots> = Some (i mod 48, rolling_blocks ((i - 48) div 48) (drop 48 p) s')"
      by (simp only: ih dr md)
    also have "rolling_blocks ((i - 48) div 48) (drop 48 p) s' = rolling_blocks (i div 48) p s"
      by (simp only: dv s s'_def rolling_blocks.simps)
    finally show ?thesis by (simp only: p_def)
  next
    case False
    then show ?thesis by (subst block_loop.simps) simp
  qed
qed

lemma tail_mix_words:
  "len = length data \<Longrightarrow> i \<le> len \<Longrightarrow> i \<le> 48 \<Longrightarrow>
   tail_mix data len i seed =
     Some (let rest = drop (len - i) data;
               s2 = (if 16 < length rest
                     then mix (word_at rest 0 XOR secret2) (word_at rest 8 XOR seed XOR secret1)
                     else seed)
           in if 32 < length rest
              then mix (word_at rest 16 XOR secret2) (word_at rest 24 XOR s2)
              else s2)"
  by (simp add: tail_mix_def slice_from_drop read64_word secret_nth Mix_mix Let_def)

lemma last_ab_words:
  "16 \<le> length data \<Longrightarrow>
   last_ab data (length data) =
     Some (word_at data (length data - 16), word_at data (length data - 8))"
  by (simp add: last_ab_def read64_word slice_from_drop Uint64_def word_at_def le_bytes_value)

lemma blocks_rolling:
  "blocks data (length data) seed =
     Some (length data - 48 * blocks_entered (length data),
           (case rolling_blocks (blocks_entered (length data)) data (seed, seed, seed) of
              (s, see1, see2) \<Rightarrow> s XOR see1 XOR see2))"
proof (cases "48 < length data")
  case True
  have m: "length data - 48 * (length data div 48) = length data mod 48"
    by (simp add: minus_mult_div_eq_mod)
  show ?thesis
    by (simp add: blocks_def True block_loop_rolling blocks_entered_def m split: prod.splits)
next
  case False
  then show ?thesis by (simp add: blocks_def blocks_entered_def)
qed

lemma long_branch_seed:
  "Option.bind (blocks data (length data) seed) (\<lambda>(i, s). tail_mix data (length data) i s)
     = Some (long_seed blocks_entered data seed)"
proof -
  let ?n = "blocks_entered (length data)"
  have le: "48 * ?n \<le> length data" by (simp add: blocks_entered_def)
  have le48: "length data - 48 * ?n \<le> 48"
    by (cases "48 < length data") (simp_all add: blocks_entered_def minus_mult_div_eq_mod)
  have d: "length data - (length data - 48 * ?n) = 48 * ?n" using le by simp
  show ?thesis
    by (simp add: blocks_rolling tail_mix_words le48 d long_seed_def Let_def split: prod.splits)
qed

lemma finish_mix:
  "finish len seed (a, b) =
     (let p = product128 (a XOR secret1) (b XOR seed)
      in mix (low64 p XOR secret0 XOR of_nat len) (high64 p XOR secret1))"
  by (simp add: finish_def Mul128_product Mix_mix secret_nth Let_def)

lemma seed0_mix: "seed0 len seed = seed XOR mix (seed XOR secret0) secret1 XOR of_nat len"
  by (simp add: seed0_def Mix_mix secret_nth xor.assoc)

lemma Hash_MixHash_long:
  assumes "16 < length data"
  shows "Hash data seed = Some (MixHash_long blocks_entered data seed)"
proof -
  let ?s0 = "seed0 (length data) seed"
  from long_branch_seed [of data ?s0]
  obtain i s where b: "blocks data (length data) ?s0 = Some (i, s)"
    and t: "tail_mix data (length data) i s = Some (long_seed blocks_entered data ?s0)"
    by (auto simp add: bind_eq_Some_conv)
  from assms have l: "last_ab data (length data) =
     Some (word_at data (length data - 16), word_at data (length data - 8))"
    by (simp add: last_ab_words)
  from assms show ?thesis
    by (simp add: Hash_def Let_def b [unfolded seed0_mix] t [unfolded seed0_mix] l finish_mix
      MixHash_long_def seed0_mix)
qed

subsection \<open>The hash of 48 zero bytes\<close>

lemma le_bytes_zero: "le_bytes (replicate n 0) = 0"
  by (induction n) simp_all

lemma read64_zero: "lo + 8 = hi \<Longrightarrow> hi \<le> n \<Longrightarrow> read64 (replicate n 0) lo hi = Some 0"
  by (auto simp add: read64_def slice_def Uint64_def le_bytes_zero min_def)

lemma slice_from_zero: "lo \<le> n \<Longrightarrow> slice_from (replicate n (0::byte)) lo = Some (replicate (n - lo) 0)"
  by (simp add: slice_from_def slice_def)

lemma seed0_48: "seed0 48 SEED = 0x763305bbe7bea506"
  by (simp add: seed0_def SEED_def secret_def Mix_def Mul128_def)

lemma last_ab_zero: "last_ab (replicate 48 0) 48 = Some (0, 0)"
  by (simp add: last_ab_def read64_zero slice_from_zero Uint64_def le_bytes_zero)

lemma tail48: "tail_mix (replicate 48 0) 48 48 s = Some (Mix (secret ! 2) (Mix (secret ! 2) (s XOR secret ! 1)))"
  by (simp add: tail_mix_def read64_zero slice_from_zero)

lemma h48: "Hash (replicate 48 0) SEED = Some 0xe5512a85dba95349"
  by (simp add: Hash_def blocks_def tail48 last_ab_zero seed0_48 finish_def secret_def Mix_def Mul128_def)

lemma le_value_zero: "le_value (replicate n 0) = 0"
  by (induction n) (simp_all add: le_value_def)

lemma word_at_zero: "word_at (replicate n 0) off = 0"
proof -
  have "take 8 (drop off (replicate n (0::byte))) = replicate (min 8 (n - off)) 0" by simp
  then show ?thesis by (simp only: word_at_def le_value_zero) simp
qed

lemma low64_product: "low64 (product128 a b) = of_nat (unat a * unat b)"
  using Mul128_product [of a b] by (simp add: Mul128_def Let_def)

lemma high64_product: "high64 (product128 a b) = of_nat (unat a * unat b div 2 ^ 64)"
  using Mul128_product [of a b] by (simp add: Mul128_def Let_def)

lemma mix_nat: "mix a b = of_nat (unat a * unat b) XOR of_nat (unat a * unat b div 2 ^ 64)"
  by (simp only: mix_def low64_product high64_product)

lemma claimed48: "MixHash_long blocks_claimed (replicate 48 0) SEED = 0x2471b8db1a1af330"
  by (simp add: MixHash_long_def long_seed_def blocks_claimed_def word_at_zero SEED_def
      secret0_def secret1_def secret2_def mix_nat low64_product high64_product)

lemma MixHash_long_cong:
  "count (length data) = count' (length data) \<Longrightarrow>
   MixHash_long count data seed = MixHash_long count' data seed"
  by (simp add: MixHash_long_def long_seed_def)

lemma blocks_entered_claimed: "len \<noteq> 48 \<Longrightarrow> blocks_entered len = blocks_claimed len"
  by (simp add: blocks_entered_def blocks_claimed_def)

text \<open>
  Claim C7, as amended. For every input of more than 16 bytes the hash is the one the
  specification describes, \<open>MixHash_long\<close>, with the number of blocks \<open>blocks_entered\<close>:
  blocks of 48 bytes taken from the front, three rolling seeds mixed from two little-endian
  words each, against secrets 0, 1 and 2 and their previous values, XORed together after
  the blocks; then one pass over the tail against secrets 2 and 1 when more than 16 bytes
  remain, and a second against secret 2 when more than 32 remain. The hash always returns,
  and the seed after the block loop and the tail passes is \<open>long_seed\<close>. The claim's own
  count, a block while at least 48 bytes remain, gives the same hash for every length other
  than 48. An input of exactly 48 bytes gets no block: the source enters the loop only under
  \<^verbatim>\<open>if i > 48\<close>, and all 48 bytes are left to the two tail passes.
\<close>

theorem Hash_long_branch:
  "16 < length data \<longrightarrow>
     Hash data seed = Some (MixHash_long blocks_entered data seed)
   \<and> Option.bind (blocks data (length data) s0) (\<lambda>(i, s). tail_mix data (length data) i s)
       = Some (long_seed blocks_entered data s0)
   \<and> (length data \<noteq> 48 \<longrightarrow> Hash data seed = Some (MixHash_long blocks_claimed data seed))"
proof (intro impI conjI)
  assume l: "16 < length data"
  then show "Hash data seed = Some (MixHash_long blocks_entered data seed)"
    by (rule Hash_MixHash_long)
  show "Option.bind (blocks data (length data) s0) (\<lambda>(i, s). tail_mix data (length data) i s)
       = Some (long_seed blocks_entered data s0)"
    by (rule long_branch_seed)
  assume "length data \<noteq> 48"
  then have "MixHash_long blocks_entered data seed = MixHash_long blocks_claimed data seed"
    by (intro MixHash_long_cong blocks_entered_claimed)
  with l show "Hash data seed = Some (MixHash_long blocks_claimed data seed)"
    by (simp add: Hash_MixHash_long)
qed

text \<open>Inputs of 20, 100 and 48 zero bytes.\<close>

theorem Hash_long_branch_witness:
  "Hash (replicate 20 0) SEED = Some (MixHash_long blocks_claimed (replicate 20 0) SEED)
   \<and> Hash (replicate 100 0) SEED = Some (MixHash_long blocks_claimed (replicate 100 0) SEED)
   \<and> Hash (replicate 48 0) SEED = Some (MixHash_long blocks_entered (replicate 48 0) SEED)"
proof -
  have "16 < length (replicate 20 (0::byte)) \<and> length (replicate 20 (0::byte)) \<noteq> 48"
    by simp
  with Hash_long_branch [of "replicate 20 0" SEED SEED]
  have a: "Hash (replicate 20 0) SEED = Some (MixHash_long blocks_claimed (replicate 20 0) SEED)"
    by blast
  have "16 < length (replicate 100 (0::byte)) \<and> length (replicate 100 (0::byte)) \<noteq> 48"
    by simp
  with Hash_long_branch [of "replicate 100 0" SEED SEED]
  have b: "Hash (replicate 100 0) SEED = Some (MixHash_long blocks_claimed (replicate 100 0) SEED)"
    by blast
  have "16 < length (replicate 48 (0::byte))" by simp
  with Hash_long_branch [of "replicate 48 0" SEED SEED]
  have c: "Hash (replicate 48 0) SEED = Some (MixHash_long blocks_entered (replicate 48 0) SEED)"
    by blast
  from a b c show ?thesis by blast
qed

text \<open>
  Claim C7 as stated fails on 48 zero bytes: taking them as one block gives
  \<open>0x2471b8db1a1af330\<close>, and the source computes \<open>0xe5512a85dba95349\<close>.
\<close>

theorem Hash_block_48_counterexample:
  "Hash (replicate 48 0) SEED \<noteq> Some (MixHash_long blocks_claimed (replicate 48 0) SEED)"
  by (simp add: h48 claimed48)

end
